theory Spec2Isabelle
  imports Main "HOL-Library.Word"
begin

section \<open>The kvz client (kvz\_client.py): data\<close>

text \<open>
  A Python \<open>bytes\<close> object is a list of 8-bit words, a multipart message is a list of
  frames. A Python \<open>str\<close> is a sequence of Unicode code points, which an Isabelle
  \<open>string\<close> (8-bit characters) cannot hold, so it is a list of code points as naturals.
\<close>

type_synonym byte = "8 word"
type_synonym bytes = "byte list"
type_synonym str = "nat list"

definition bytes_lit :: "string \<Rightarrow> bytes" where
  \<comment> \<open>an ASCII bytes literal such as \<open>b"PUT"\<close>\<close>
  "bytes_lit s = map of_char s"

definition str_lit :: "string \<Rightarrow> str" where
  \<comment> \<open>an ASCII str literal such as \<open>"OK"\<close>\<close>
  "str_lit s = map of_char s"

datatype error =
    StructError \<comment> \<open>\<open>struct.error\<close>, raised by \<open>struct.pack\<close> and \<open>struct.unpack\<close>\<close>
  | UnicodeEncodeError \<comment> \<open>raised by \<open>str.encode("utf-8")\<close>\<close>
  | RuntimeError str \<comment> \<open>\<open>RuntimeError(message)\<close>, the only exception the client raises itself\<close>

section \<open>Library functions the client calls\<close>

subsection \<open>\<open>struct.pack(">Q", ts)\<close> and \<open>struct.unpack(">Q", frame)\<close>\<close>

fun be_bytes :: "nat \<Rightarrow> int \<Rightarrow> bytes" where
  "be_bytes 0 x = []"
| "be_bytes (Suc n) x = be_bytes n (x div 256) @ [word_of_int (x mod 256)]"

definition be_int :: "bytes \<Rightarrow> int" where
  "be_int bs = foldl (\<lambda>acc b. acc * 256 + uint b) 0 bs"

definition pack_Q :: "int \<Rightarrow> error + bytes" where
  \<comment> \<open>format \<open>>Q\<close>: unsigned, 8 bytes, big-endian; a value out of range raises\<close>
  "pack_Q ts = (if 0 \<le> ts \<and> ts < 2 ^ 64 then Inr (be_bytes 8 ts) else Inl StructError)"

definition unpack_Q :: "bytes \<Rightarrow> error + int" where
  \<comment> \<open>a buffer that is not exactly 8 bytes long raises\<close>
  "unpack_Q bs = (if length bs = 8 then Inr (be_int bs) else Inl StructError)"

subsection \<open>\<open>str.encode("utf-8")\<close>\<close>

definition encode_cp :: "nat \<Rightarrow> error + bytes" where
  \<comment> \<open>strict encoding: a surrogate code point raises. A Python str holds no code point
      above 0x10FFFF; the last branch keeps the function total.\<close>
  "encode_cp c =
     (if c < 0x80 then Inr [of_nat c]
      else if c < 0x800 then Inr [of_nat (0xC0 + c div 64), of_nat (0x80 + c mod 64)]
      else if 0xD800 \<le> c \<and> c < 0xE000 then Inl UnicodeEncodeError
      else if c < 0x10000 then
        Inr [of_nat (0xE0 + c div 4096), of_nat (0x80 + c div 64 mod 64), of_nat (0x80 + c mod 64)]
      else if c < 0x110000 then
        Inr [of_nat (0xF0 + c div 262144), of_nat (0x80 + c div 4096 mod 64),
             of_nat (0x80 + c div 64 mod 64), of_nat (0x80 + c mod 64)]
      else Inl UnicodeEncodeError)"

fun utf8_encode :: "str \<Rightarrow> error + bytes" where
  "utf8_encode [] = Inr []"
| "utf8_encode (c # cs) =
     (case encode_cp c of
        Inl e \<Rightarrow> Inl e
      | Inr bs \<Rightarrow> (case utf8_encode cs of Inl e \<Rightarrow> Inl e | Inr r \<Rightarrow> Inr (bs @ r)))"

subsection \<open>\<open>bytes.decode("utf-8", errors="ignore")\<close>\<close>

definition is_cont :: "byte \<Rightarrow> bool" where
  "is_cont c = (0x80 \<le> c \<and> c < 0xC0)"

definition cp2 :: "byte \<Rightarrow> byte \<Rightarrow> nat" where
  "cp2 c c2 = unat c * 64 + unat c2 - (0xC0 * 64 + 0x80)"

definition cp3 :: "byte \<Rightarrow> byte \<Rightarrow> byte \<Rightarrow> nat" where
  "cp3 c c2 c3 = unat c * 4096 + unat c2 * 64 + unat c3 - (0xE0 * 4096 + 0x80 * 64 + 0x80)"

definition cp4 :: "byte \<Rightarrow> byte \<Rightarrow> byte \<Rightarrow> byte \<Rightarrow> nat" where
  "cp4 c c2 c3 c4 =
     unat c * 262144 + unat c2 * 4096 + unat c3 * 64 + unat c4
       - (0xF0 * 262144 + 0x80 * 4096 + 0x80 * 64 + 0x80)"

text \<open>
  The decoder reads one character at a time. Where the bytes at the front are not a valid
  sequence, the error handler \<open>ignore\<close> drops the offending bytes (an invalid start byte;
  a lead byte and the valid continuation bytes read before an invalid one; everything left
  when the data ends inside a sequence) and decoding resumes behind them. Nothing is put
  into the result for the dropped bytes.
\<close>

fun utf8_decode_ignore :: "bytes \<Rightarrow> str" where
  "utf8_decode_ignore [] = []"
| "utf8_decode_ignore (c # bs) =
     (if c < 0x80 then unat c # utf8_decode_ignore bs
      else if c < 0xC2 then utf8_decode_ignore bs
      else if c < 0xE0 then
        (case bs of
           [] \<Rightarrow> []
         | c2 # r2 \<Rightarrow>
             if is_cont c2 then cp2 c c2 # utf8_decode_ignore r2
             else utf8_decode_ignore bs)
      else if c < 0xF0 then
        (case bs of
           [] \<Rightarrow> []
         | c2 # r2 \<Rightarrow>
             if \<not> is_cont c2 \<or> (c = 0xE0 \<and> c2 < 0xA0) \<or> (c = 0xED \<and> 0xA0 \<le> c2)
             then utf8_decode_ignore bs
             else
               (case r2 of
                  [] \<Rightarrow> []
                | c3 # r3 \<Rightarrow>
                    if is_cont c3 then cp3 c c2 c3 # utf8_decode_ignore r3
                    else utf8_decode_ignore r2))
      else if c < 0xF5 then
        (case bs of
           [] \<Rightarrow> []
         | c2 # r2 \<Rightarrow>
             if \<not> is_cont c2 \<or> (c = 0xF0 \<and> c2 < 0x90) \<or> (c = 0xF4 \<and> 0x90 \<le> c2)
             then utf8_decode_ignore bs
             else
               (case r2 of
                  [] \<Rightarrow> []
                | c3 # r3 \<Rightarrow>
                    if \<not> is_cont c3 then utf8_decode_ignore r2
                    else
                      (case r3 of
                         [] \<Rightarrow> []
                       | c4 # r4 \<Rightarrow>
                           if is_cont c4 then cp4 c c2 c3 c4 # utf8_decode_ignore r4
                           else utf8_decode_ignore r3)))
      else utf8_decode_ignore bs)"

definition bad3 :: "byte \<Rightarrow> byte \<Rightarrow> bool" where
  \<comment> \<open>the decoder's test on the second byte of a three-byte sequence, under a name\<close>
  "bad3 c c2 = (\<not> is_cont c2 \<or> (c = 0xE0 \<and> c2 < 0xA0) \<or> (c = 0xED \<and> 0xA0 \<le> c2))"

definition bad4 :: "byte \<Rightarrow> byte \<Rightarrow> bool" where
  \<comment> \<open>the decoder's test on the second byte of a four-byte sequence, under a name\<close>
  "bad4 c c2 = (\<not> is_cont c2 \<or> (c = 0xF0 \<and> c2 < 0x90) \<or> (c = 0xF4 \<and> 0x90 \<le> c2))"

definition scalar :: "nat \<Rightarrow> bool" where
  \<comment> \<open>a Unicode scalar value: a code point that is not a surrogate\<close>
  "scalar c = (c < 0x110000 \<and> \<not> (0xD800 \<le> c \<and> c < 0xE000))"

definition never_valid :: "byte \<Rightarrow> bool" where
  \<comment> \<open>a byte that no UTF-8 sequence starts with: a continuation byte, 0xC0, 0xC1, or 0xF5 and above\<close>
  "never_valid c = (0x80 \<le> c \<and> (c < 0xC2 \<or> 0xF5 \<le> c))"

subsection \<open>\<open>repr\<close> of a list of bytes objects, as the f-string \<open>{rep}\<close> prints it\<close>

definition hexdigit :: "nat \<Rightarrow> nat" where
  \<comment> \<open>the character of \<open>"0123456789abcdef"\<close> at index n\<close>
  "hexdigit n = (if n < 10 then 48 + n else 87 + n)"

definition repr_byte :: "byte \<Rightarrow> byte \<Rightarrow> str" where
  \<comment> \<open>one byte inside a bytes literal delimited by the quote q\<close>
  "repr_byte q c =
     (if c = q \<or> c = 0x5C then [0x5C, unat c]
      else if c = 0x09 then [0x5C, 0x74]
      else if c = 0x0A then [0x5C, 0x6E]
      else if c = 0x0D then [0x5C, 0x72]
      else if c < 0x20 \<or> 0x7F \<le> c then [0x5C, 0x78, hexdigit (unat c div 16), hexdigit (unat c mod 16)]
      else [unat c])"

definition repr_bytes :: "bytes \<Rightarrow> str" where
  \<comment> \<open>single quotes, unless the bytes hold a single quote and no double quote\<close>
  "repr_bytes bs =
     (let q = (if 0x27 \<in> set bs \<and> 0x22 \<notin> set bs then 0x22 else 0x27)
      in [0x62, unat q] @ concat (map (repr_byte q) bs) @ [unat q])"

fun join_comma :: "str list \<Rightarrow> str" where
  "join_comma [] = []"
| "join_comma [s] = s"
| "join_comma (s # ss) = s @ [0x2C, 0x20] @ join_comma ss"

definition repr_list :: "bytes list \<Rightarrow> str" where
  "repr_list rep = [0x5B] @ join_comma (map repr_bytes rep) @ [0x5D]"

section \<open>The socket\<close>

text \<open>
  The client owns one request/reply socket. What the peer answers is outside the client:
  a server is a function from its own state and a request to a reply and its next state.
  The session records every message handed to \<open>send_multipart\<close>, oldest first, and the
  state of the peer. \<open>recv_multipart\<close> returns the peer's reply to the request sent last.
\<close>

type_synonym 's server = "'s \<Rightarrow> bytes list \<Rightarrow> bytes list \<times> 's"

record 's session =
  sent :: "bytes list list"
  peer :: 's

definition send_multipart :: "bytes list \<Rightarrow> 's session \<Rightarrow> 's session" where
  "send_multipart frames s = s\<lparr>sent := sent s @ [frames]\<rparr>"

definition recv_multipart :: "'s server \<Rightarrow> 's session \<Rightarrow> bytes list \<times> 's session" where
  "recv_multipart srv s =
     (let (rep, p) = srv (peer s) (last (sent s)) in (rep, s\<lparr>peer := p\<rparr>))"

section \<open>KVZClient.put and KVZClient.get\<close>

definition put_reply :: "bytes list \<Rightarrow> error + str" where
  \<comment> \<open>lines 23 to 31: what put makes of the reply\<close>
  "put_reply rep =
     (if rep = [] then Inl (RuntimeError (str_lit ''empty reply''))
      else
        let code = utf8_decode_ignore (rep ! 0) in
        if code = str_lit ''OK'' \<or> code = str_lit ''STALE'' then Inr code
        else if code = str_lit ''ERR'' then
          (let msg = (if length rep > 1 then utf8_decode_ignore (rep ! 1) else [])
           in Inl (RuntimeError (str_lit ''PUT ERR: '' @ msg)))
        else Inl (RuntimeError (str_lit ''Unexpected reply: '' @ repr_list rep)))"

definition put :: "'s server \<Rightarrow> str \<Rightarrow> int \<Rightarrow> bytes \<Rightarrow> 's session \<Rightarrow> (error + str) \<times> 's session" where
  "put srv key ts data s =
     (case pack_Q ts of
        Inl e \<Rightarrow> (Inl e, s)
      | Inr ts_bytes \<Rightarrow>
          (case utf8_encode key of
             Inl e \<Rightarrow> (Inl e, s)
           | Inr key_bytes \<Rightarrow>
               (let s1 = send_multipart [bytes_lit ''PUT'', key_bytes, ts_bytes, data] s;
                    (rep, s2) = recv_multipart srv s1
                in (put_reply rep, s2))))"

definition get_reply :: "bytes list \<Rightarrow> error + (int \<times> bytes) option" where
  \<comment> \<open>lines 40 to 54: what get makes of the reply\<close>
  "get_reply rep =
     (if rep = [] then Inl (RuntimeError (str_lit ''empty reply''))
      else
        let code = utf8_decode_ignore (rep ! 0) in
        if code = str_lit ''MISS'' then Inr None
        else if code = str_lit ''OK'' then
          (if length rep \<noteq> 3 then Inl (RuntimeError (str_lit ''malformed OK reply''))
           else
             (case unpack_Q (rep ! 1) of
                Inl e \<Rightarrow> Inl e
              | Inr ts \<Rightarrow> Inr (Some (ts, rep ! 2))))
        else if code = str_lit ''ERR'' then
          (let msg = (if length rep > 1 then utf8_decode_ignore (rep ! 1) else [])
           in Inl (RuntimeError (str_lit ''GET ERR: '' @ msg)))
        else Inl (RuntimeError (str_lit ''Unexpected reply: '' @ repr_list rep)))"

definition get :: "'s server \<Rightarrow> str \<Rightarrow> 's session \<Rightarrow> (error + (int \<times> bytes) option) \<times> 's session" where
  "get srv key s =
     (case utf8_encode key of
        Inl e \<Rightarrow> (Inl e, s)
      | Inr key_bytes \<Rightarrow>
          (let s1 = send_multipart [bytes_lit ''GET'', key_bytes] s;
               (rep, s2) = recv_multipart srv s1
           in (get_reply rep, s2)))"

section \<open>The outcomes as the specification names them\<close>

text \<open>
  The client raises \<open>RuntimeError\<close> for every failure it detects itself; the failure
  kinds of the specification (section 7) differ in the message only:
  \<open>empty reply\<close> is the transport error, \<open>PUT ERR: m\<close> and \<open>GET ERR: m\<close> are the
  remote error with message m, \<open>malformed OK reply\<close> and \<open>Unexpected reply: ...\<close> are
  the protocol error. \<open>failure_kind\<close> reads the kind off the exception a caller catches.
\<close>

datatype failure = TransportError | ProtocolError | RemoteError str

definition failure_kind :: "error \<Rightarrow> failure option" where
  "failure_kind e =
     (case e of
        RuntimeError m \<Rightarrow>
          if m = str_lit ''empty reply'' then Some TransportError
          else if take 9 m = str_lit ''PUT ERR: '' \<or> take 9 m = str_lit ''GET ERR: ''
            then Some (RemoteError (drop 9 m))
          else if m = str_lit ''malformed OK reply'' \<or> take 18 m = str_lit ''Unexpected reply: ''
            then Some ProtocolError
          else None
      | StructError \<Rightarrow> None
      | UnicodeEncodeError \<Rightarrow> None)"

datatype outcome =
  Success | StaleRejection | MissResult | RemoteFailure | ProtocolFailure | TransportFailure
  | Unclassified

definition failure_outcome :: "error \<Rightarrow> outcome" where
  "failure_outcome e =
     (case failure_kind e of
        Some TransportError \<Rightarrow> TransportFailure
      | Some ProtocolError \<Rightarrow> ProtocolFailure
      | Some (RemoteError m) \<Rightarrow> RemoteFailure
      | None \<Rightarrow> Unclassified)"


definition get_outcome :: "error + (int \<times> bytes) option \<Rightarrow> outcome" where
  \<comment> \<open>what a caller of get can tell from the value returned or the exception raised\<close>
  "get_outcome r =
     (case r of
        Inr None \<Rightarrow> MissResult
      | Inr (Some v) \<Rightarrow> Success
      | Inl e \<Rightarrow> failure_outcome e)"

definition tag_of :: "bytes list \<Rightarrow> str" where
  \<comment> \<open>the status tag of a reply: \<open>rep[0].decode("utf-8", errors="ignore")\<close>\<close>
  "tag_of rep = utf8_decode_ignore (rep ! 0)"

definition server_message :: "bytes list \<Rightarrow> str" where
  \<comment> \<open>the message of an ERR reply as the client reports it: the second frame decoded,
      the empty string when there is none\<close>
  "server_message rep = (if length rep > 1 then utf8_decode_ignore (rep ! 1) else [])"

section \<open>The store behind the socket\<close>

type_synonym store = "bytes \<rightharpoonup> (int \<times> bytes)"

text \<open>
  Modelled from the spec: the key/value store (the Rust server) is not among the sources;
  \<open>kvz_store\<close> is the collaborator contract of section 6. The state maps a key frame
  to the record (timestamp, payload). A PUT is applied when there is no record for the key
  or the record's timestamp is strictly less than the submitted one, and answered \<open>OK\<close>;
  otherwise the state is unchanged and the answer is \<open>STALE\<close>. A GET answers \<open>OK\<close> with
  the timestamp as 8 bytes big-endian and the payload, or \<open>MISS\<close>. Any other request is
  answered \<open>ERR\<close>.
\<close>

fun kvz_store :: "store server" where
  "kvz_store st [t, k, tsb, payload] =
     (if t = bytes_lit ''PUT'' \<and> length tsb = 8 then
        (case st k of
           None \<Rightarrow> ([bytes_lit ''OK''], st(k \<mapsto> (be_int tsb, payload)))
         | Some (t0, p0) \<Rightarrow>
             if t0 < be_int tsb then ([bytes_lit ''OK''], st(k \<mapsto> (be_int tsb, payload)))
             else ([bytes_lit ''STALE''], st))
      else ([bytes_lit ''ERR''], st))"
| "kvz_store st [t, k] =
     (if t = bytes_lit ''GET'' then
        (case st k of
           None \<Rightarrow> ([bytes_lit ''MISS''], st)
         | Some (t0, p0) \<Rightarrow> ([bytes_lit ''OK'', be_bytes 8 t0, p0], st))
      else ([bytes_lit ''ERR''], st))"
| "kvz_store st req = ([bytes_lit ''ERR''], st)"

section \<open>Facts about the library functions\<close>

lemma be_int_snoc: "be_int (bs @ [b]) = be_int bs * 256 + uint b"
  by (simp add: be_int_def)

lemma length_be_bytes: "length (be_bytes n x) = n"
  by (induction n arbitrary: x) simp_all

lemma uint_byte_of_mod: "uint (word_of_int (x mod 256) :: byte) = x mod 256"
  by (simp add: uint_word_of_int)

lemma be_int_be_bytes: "be_int (be_bytes n x) = x mod 256 ^ n"
proof (induction n arbitrary: x)
  case 0
  show ?case by (simp add: be_int_def)
next
  case (Suc n)
  have "be_int (be_bytes (Suc n) x) = (x div 256) mod 256 ^ n * 256 + x mod 256"
    by (simp add: be_int_snoc uint_byte_of_mod Suc.IH)
  also have "\<dots> = x mod 256 ^ Suc n"
    using zmod_zmult2_eq [of "256 ^ n" x 256] by simp
  finally show ?case .
qed

lemma unpack_pack_Q:
  assumes "0 \<le> ts" and "ts < 2 ^ 64"
  shows "pack_Q ts = Inr (be_bytes 8 ts)" and "unpack_Q (be_bytes 8 ts) = Inr ts"
proof -
  show "pack_Q ts = Inr (be_bytes 8 ts)"
    using assms by (simp add: pack_Q_def)
  have "(256::int) ^ 8 = 2 ^ 64" by simp
  then have "ts mod 256 ^ 8 = ts"
    using assms by simp
  then show "unpack_Q (be_bytes 8 ts) = Inr ts"
    by (simp add: unpack_Q_def length_be_bytes be_int_be_bytes)
qed

lemma utf8_encode_ascii_k: "utf8_encode (str_lit ''k'') = Inr (bytes_lit ''k'')"
  by (simp add: str_lit_def bytes_lit_def encode_cp_def)

lemma pack_Q_1000: "pack_Q 1000 = Inr [0, 0, 0, 0, 0, 0, 3, 232]"
  by (simp add: pack_Q_def eval_nat_numeral)

subsection \<open>The UTF-8 decoder, one character at a time\<close>

lemma cp2_nat:
  fixes x y :: nat
  assumes "194 \<le> x" "x < 224" "128 \<le> y" "y < 192"
  shows "128 \<le> x * 64 + y - 12416 \<and> x * 64 + y - 12416 < 2048"
  using assms by linarith

lemma cp3_nat:
  fixes x y z :: nat
  assumes "224 \<le> x" "x < 240" "128 \<le> y" "y < 192" "128 \<le> z" "z < 192"
    and "\<not> (x = 224 \<and> y < 160)" and "\<not> (x = 237 \<and> 160 \<le> y)"
  shows "2048 \<le> x * 4096 + y * 64 + z - 925824 \<and> x * 4096 + y * 64 + z - 925824 < 65536 \<and>
     \<not> (55296 \<le> x * 4096 + y * 64 + z - 925824 \<and> x * 4096 + y * 64 + z - 925824 < 57344)"
proof -
  consider "x = 224" | "225 \<le> x \<and> x \<le> 236" | "x = 237" | "238 \<le> x"
    using assms(1) by linarith
  then show ?thesis
  proof cases
    case 1 with assms show ?thesis by linarith
  next
    case 2 with assms show ?thesis by linarith
  next
    case 3 with assms show ?thesis by linarith
  next
    case 4 with assms show ?thesis by linarith
  qed
qed

lemma cp4_nat:
  fixes x y z w :: nat
  assumes "240 \<le> x" "x < 245" "128 \<le> y" "y < 192" "128 \<le> z" "z < 192" "128 \<le> w" "w < 192"
    and "\<not> (x = 240 \<and> y < 144)" and "\<not> (x = 244 \<and> 144 \<le> y)"
  shows "65536 \<le> x * 262144 + y * 4096 + z * 64 + w - 63447168 \<and>
         x * 262144 + y * 4096 + z * 64 + w - 63447168 < 1114112"
proof -
  consider "x = 240" | "241 \<le> x \<and> x \<le> 243" | "x = 244"
    using assms(1,2) by linarith
  then show ?thesis
  proof cases
    case 1 with assms show ?thesis by linarith
  next
    case 2 with assms show ?thesis by linarith
  next
    case 3 with assms show ?thesis by linarith
  qed
qed

lemma cp2_range: "\<not> c < 0xC2 \<Longrightarrow> c < 0xE0 \<Longrightarrow> is_cont c2 \<Longrightarrow> 0x80 \<le> cp2 c c2 \<and> cp2 c c2 < 0x800"
  using cp2_nat [of "unat c" "unat c2"]
  by (simp add: cp2_def is_cont_def word_less_nat_alt word_le_nat_alt)

lemma cp3_range: "\<not> c < 0xE0 \<Longrightarrow> c < 0xF0 \<Longrightarrow> is_cont c2 \<Longrightarrow> is_cont c3 \<Longrightarrow>
   \<not> (c = 0xE0 \<and> c2 < 0xA0) \<Longrightarrow> \<not> (c = 0xED \<and> 0xA0 \<le> c2) \<Longrightarrow>
   0x800 \<le> cp3 c c2 c3 \<and> cp3 c c2 c3 < 0x10000 \<and> \<not> (0xD800 \<le> cp3 c c2 c3 \<and> cp3 c c2 c3 < 0xE000)"
  using cp3_nat [of "unat c" "unat c2" "unat c3"]
  by (simp add: cp3_def is_cont_def word_less_nat_alt word_le_nat_alt word_unat_eq_iff)

lemma cp4_range: "\<not> c < 0xF0 \<Longrightarrow> c < 0xF5 \<Longrightarrow> is_cont c2 \<Longrightarrow> is_cont c3 \<Longrightarrow> is_cont c4 \<Longrightarrow>
   \<not> (c = 0xF0 \<and> c2 < 0x90) \<Longrightarrow> \<not> (c = 0xF4 \<and> 0x90 \<le> c2) \<Longrightarrow>
   0x10000 \<le> cp4 c c2 c3 c4 \<and> cp4 c c2 c3 c4 < 0x110000"
  using cp4_nat [of "unat c" "unat c2" "unat c3" "unat c4"]
  by (simp add: cp4_def is_cont_def word_less_nat_alt word_le_nat_alt word_unat_eq_iff)

lemma unat_byte_of_nat: "n < 256 \<Longrightarrow> unat (of_nat n :: byte) = n"
  by (simp add: unat_of_nat)

lemma dec_ascii: "c < 0x80 \<Longrightarrow> utf8_decode_ignore (c # r) = unat c # utf8_decode_ignore r"
  by (simp add: word_less_nat_alt utf8_decode_ignore.simps(2) [of c r] del: utf8_decode_ignore.simps)

lemma dec_drop1:
  "\<not> c < 0x80 \<Longrightarrow> c < 0xC2 \<or> \<not> c < 0xF5 \<Longrightarrow> utf8_decode_ignore (c # r) = utf8_decode_ignore r"
  by (auto simp add: word_less_nat_alt word_le_nat_alt utf8_decode_ignore.simps(2) [of c r] simp del: utf8_decode_ignore.simps)

lemma dec_lead_end: "\<not> c < 0xC2 \<Longrightarrow> c < 0xF5 \<Longrightarrow> utf8_decode_ignore [c] = []"
  by (auto simp add: word_less_nat_alt word_le_nat_alt utf8_decode_ignore.simps(2) [of c "[]"] simp del: utf8_decode_ignore.simps)

lemma dec2:
  "\<not> c < 0xC2 \<Longrightarrow> c < 0xE0 \<Longrightarrow>
   utf8_decode_ignore (c # c2 # r2) =
     (if is_cont c2 then cp2 c c2 # utf8_decode_ignore r2 else utf8_decode_ignore (c2 # r2))"
  by (auto simp add: word_less_nat_alt word_le_nat_alt utf8_decode_ignore.simps(2) [of c "c2 # r2"] simp del: utf8_decode_ignore.simps)

lemma dec3_bad:
  "\<not> c < 0xE0 \<Longrightarrow> c < 0xF0 \<Longrightarrow> bad3 c c2 \<Longrightarrow>
   utf8_decode_ignore (c # c2 # r2) = utf8_decode_ignore (c2 # r2)"
  unfolding bad3_def
  by (auto simp add: word_less_nat_alt word_le_nat_alt utf8_decode_ignore.simps(2) [of c "c2 # r2"] simp del: utf8_decode_ignore.simps)

lemma dec3_end:
  "\<not> c < 0xE0 \<Longrightarrow> c < 0xF0 \<Longrightarrow> \<not> bad3 c c2 \<Longrightarrow> utf8_decode_ignore [c, c2] = []"
  unfolding bad3_def
  by (auto simp add: word_less_nat_alt word_le_nat_alt utf8_decode_ignore.simps(2) [of c "[c2]"] simp del: utf8_decode_ignore.simps)

lemma dec3:
  "\<not> c < 0xE0 \<Longrightarrow> c < 0xF0 \<Longrightarrow> \<not> bad3 c c2 \<Longrightarrow>
   utf8_decode_ignore (c # c2 # c3 # r3) =
     (if is_cont c3 then cp3 c c2 c3 # utf8_decode_ignore r3 else utf8_decode_ignore (c3 # r3))"
  unfolding bad3_def
  by (auto simp add: word_less_nat_alt word_le_nat_alt utf8_decode_ignore.simps(2) [of c "c2 # c3 # r3"] simp del: utf8_decode_ignore.simps)

lemma dec4_bad:
  "\<not> c < 0xF0 \<Longrightarrow> c < 0xF5 \<Longrightarrow> bad4 c c2 \<Longrightarrow>
   utf8_decode_ignore (c # c2 # r2) = utf8_decode_ignore (c2 # r2)"
  unfolding bad4_def
  by (auto simp add: word_less_nat_alt word_le_nat_alt utf8_decode_ignore.simps(2) [of c "c2 # r2"] simp del: utf8_decode_ignore.simps)

lemma dec4_end2:
  "\<not> c < 0xF0 \<Longrightarrow> c < 0xF5 \<Longrightarrow> \<not> bad4 c c2 \<Longrightarrow> utf8_decode_ignore [c, c2] = []"
  unfolding bad4_def
  by (auto simp add: word_less_nat_alt word_le_nat_alt utf8_decode_ignore.simps(2) [of c "[c2]"] simp del: utf8_decode_ignore.simps)

lemma dec4_bad3:
  "\<not> c < 0xF0 \<Longrightarrow> c < 0xF5 \<Longrightarrow> \<not> bad4 c c2 \<Longrightarrow> \<not> is_cont c3 \<Longrightarrow>
   utf8_decode_ignore (c # c2 # c3 # r3) = utf8_decode_ignore (c3 # r3)"
  unfolding bad4_def
  by (auto simp add: word_less_nat_alt word_le_nat_alt utf8_decode_ignore.simps(2) [of c "c2 # c3 # r3"] simp del: utf8_decode_ignore.simps)

lemma dec4_end3:
  "\<not> c < 0xF0 \<Longrightarrow> c < 0xF5 \<Longrightarrow> \<not> bad4 c c2 \<Longrightarrow> is_cont c3 \<Longrightarrow>
   utf8_decode_ignore [c, c2, c3] = []"
  unfolding bad4_def
  by (auto simp add: word_less_nat_alt word_le_nat_alt utf8_decode_ignore.simps(2) [of c "[c2, c3]"] simp del: utf8_decode_ignore.simps)

lemma dec4:
  "\<not> c < 0xF0 \<Longrightarrow> c < 0xF5 \<Longrightarrow> \<not> bad4 c c2 \<Longrightarrow> is_cont c3 \<Longrightarrow>
   utf8_decode_ignore (c # c2 # c3 # c4 # r4) =
     (if is_cont c4 then cp4 c c2 c3 c4 # utf8_decode_ignore r4 else utf8_decode_ignore (c4 # r4))"
  unfolding bad4_def
  by (auto simp add: word_less_nat_alt word_le_nat_alt utf8_decode_ignore.simps(2) [of c "c2 # c3 # c4 # r4"]
      simp del: utf8_decode_ignore.simps)

lemma decode_scalar: "list_all scalar (utf8_decode_ignore bs)"
proof (induction "length bs" arbitrary: bs rule: less_induct)
  case less
  show ?case
  proof (cases bs)
    case Nil
    then show ?thesis by simp
  next
    case (Cons c r)
    have ih: "list_all scalar (utf8_decode_ignore xs)" if "length xs \<le> length r" for xs
      using less [of xs] Cons that by simp
    have ihr: "list_all scalar (utf8_decode_ignore r)"
      by (rule ih) simp
    consider (ascii) "c < 0x80"
      | (drop) "\<not> c < 0x80" "c < 0xC2 \<or> \<not> c < 0xF5"
      | (two) "\<not> c < 0xC2" "c < 0xE0"
      | (three) "\<not> c < 0xE0" "c < 0xF0"
      | (four) "\<not> c < 0xF0" "c < 0xF5"
      by (auto simp add: word_less_nat_alt)
    then show ?thesis
    proof cases
      case ascii
      then have "scalar (unat c)"
        by (simp add: scalar_def word_less_nat_alt)
      with ihr show ?thesis by (simp add: Cons dec_ascii [OF ascii] del: utf8_decode_ignore.simps)
    next
      case drop
      with ihr show ?thesis by (simp add: Cons dec_drop1 del: utf8_decode_ignore.simps)
    next
      case two
      show ?thesis
      proof (cases r)
        case Nil
        have "c < 0xF5" using two by (simp add: word_less_nat_alt)
        then show ?thesis
          using two by (simp add: Cons Nil dec_lead_end del: utf8_decode_ignore.simps)
      next
        case r: (Cons c2 r2)
        have "list_all scalar (utf8_decode_ignore r2)"
          by (rule ih) (simp add: r)
        moreover have "is_cont c2 \<Longrightarrow> scalar (cp2 c c2)"
          using cp2_range [of c c2] two by (simp add: scalar_def)
        ultimately show ?thesis
          using ihr by (simp add: Cons r dec2 [OF two] del: utf8_decode_ignore.simps)
      qed
    next
      case three
      have lead: "\<not> c < 0xC2" "c < 0xF5"
        using three by (simp_all add: word_less_nat_alt)
      show ?thesis
      proof (cases r)
        case Nil
        then show ?thesis
          using lead by (simp add: Cons dec_lead_end del: utf8_decode_ignore.simps)
      next
        case r: (Cons c2 r2)
        have ih2: "list_all scalar (utf8_decode_ignore r2)"
          by (rule ih) (simp add: r)
        show ?thesis
        proof (cases "bad3 c c2")
          case True
          show ?thesis
            using ihr by (simp add: Cons r dec3_bad [OF three True] del: utf8_decode_ignore.simps)
        next
          case ok2: False
          show ?thesis
          proof (cases r2)
            case Nil
            show ?thesis
              by (simp add: Cons r Nil dec3_end [OF three ok2] del: utf8_decode_ignore.simps)
          next
            case r2: (Cons c3 r3)
            have "list_all scalar (utf8_decode_ignore r3)"
              by (rule ih) (simp add: r r2)
            moreover have "is_cont c3 \<Longrightarrow> scalar (cp3 c c2 c3)"
              using cp3_range [of c c2 c3] three ok2 by (simp add: scalar_def bad3_def)
            ultimately show ?thesis
              using ih2 by (simp add: Cons r r2 dec3 [OF three ok2] del: utf8_decode_ignore.simps)
          qed
        qed
      qed
    next
      case four
      have lead: "\<not> c < 0xC2" "c < 0xF5"
        using four by (simp_all add: word_less_nat_alt)
      show ?thesis
      proof (cases r)
        case Nil
        then show ?thesis
          using lead by (simp add: Cons dec_lead_end del: utf8_decode_ignore.simps)
      next
        case r: (Cons c2 r2)
        have ih2: "list_all scalar (utf8_decode_ignore r2)"
          by (rule ih) (simp add: r)
        show ?thesis
        proof (cases "bad4 c c2")
          case True
          show ?thesis
            using ihr by (simp add: Cons r dec4_bad [OF four True] del: utf8_decode_ignore.simps)
        next
          case ok2: False
          show ?thesis
          proof (cases r2)
            case Nil
            show ?thesis
              by (simp add: Cons r Nil dec4_end2 [OF four ok2] del: utf8_decode_ignore.simps)
          next
            case r2: (Cons c3 r3)
            have ih3: "list_all scalar (utf8_decode_ignore r3)"
              by (rule ih) (simp add: r r2)
            show ?thesis
            proof (cases "is_cont c3")
              case False
              show ?thesis
                using ih2
                by (simp add: Cons r r2 dec4_bad3 [OF four ok2 False] del: utf8_decode_ignore.simps)
            next
              case ok3: True
              show ?thesis
              proof (cases r3)
                case Nil
                show ?thesis
                  by (simp add: Cons r r2 Nil dec4_end3 [OF four ok2 ok3]
                      del: utf8_decode_ignore.simps)
              next
                case r3: (Cons c4 r4)
                have "list_all scalar (utf8_decode_ignore r4)"
                  by (rule ih) (simp add: r r2 r3)
                moreover have "is_cont c4 \<Longrightarrow> scalar (cp4 c c2 c3 c4)"
                  using cp4_range [of c c2 c3 c4] four ok2 ok3 by (simp add: scalar_def bad4_def)
                ultimately show ?thesis
                  using ih3
                  by (simp add: Cons r r2 r3 dec4 [OF four ok2 ok3] del: utf8_decode_ignore.simps)
              qed
            qed
          qed
        qed
      qed
    qed
  qed
qed

lemma three_fields_sum: "(c::nat) div 4096 * 4096 + c div 64 mod 64 * 64 + c mod 64 = c"
proof -
  have a: "c div 4096 = c div 64 div 64"
    by (simp add: div_mult2_eq)
  have b: "c div 64 div 64 * 64 + c div 64 mod 64 = c div 64"
    by simp
  have c: "c div 64 * 64 + c mod 64 = c"
    by simp
  show ?thesis
    unfolding a using b c by linarith
qed

lemma four_fields_sum: "(c::nat) div 262144 * 262144 + c div 4096 mod 64 * 4096 + c div 64 mod 64 * 64 + c mod 64 = c"
proof -
  have a: "c div 262144 = c div 4096 div 64"
    by (simp add: div_mult2_eq)
  have b: "c div 4096 div 64 * 64 + c div 4096 mod 64 = c div 4096"
    by simp
  show ?thesis
    unfolding a using b three_fields_sum [of c] by linarith
qed

lemma two_byte_lead_range: "\<not> (c::nat) < 0x80 \<Longrightarrow> c < 0x800 \<Longrightarrow> 2 \<le> c div 64 \<and> c div 64 < 32"
  by (simp add: less_mult_imp_div_less le_div_geq)

lemma three_byte_field_ranges:
  fixes c :: nat
  assumes "\<not> c < 0x800" and "c < 0x10000" and "\<not> (0xD800 \<le> c \<and> c < 0xE000)"
  shows "c div 4096 < 16"
    and "c div 4096 = 0 \<Longrightarrow> 32 \<le> c div 64 mod 64"
    and "c div 4096 = 13 \<Longrightarrow> c div 64 mod 64 < 32"
proof -
  have m: "c div 64 mod 64 < 64" "c mod 64 < 64"
    by simp_all
  show "c div 4096 < 16"
    using assms(2) by (simp add: less_mult_imp_div_less)
  show "32 \<le> c div 64 mod 64" if "c div 4096 = 0"
    using three_fields_sum [of c] that assms(1) m by linarith
  show "c div 64 mod 64 < 32" if "c div 4096 = 13"
    using three_fields_sum [of c] that assms(3) m by linarith
qed

lemma four_byte_field_ranges:
  fixes c :: nat
  assumes "\<not> c < 0x10000" and "c < 0x110000"
  shows "c div 262144 < 5"
    and "c div 262144 = 0 \<Longrightarrow> 16 \<le> c div 4096 mod 64"
    and "c div 262144 = 4 \<Longrightarrow> c div 4096 mod 64 < 16"
proof -
  have m: "c div 4096 mod 64 < 64" "c div 64 mod 64 < 64" "c mod 64 < 64"
    by simp_all
  show "c div 262144 < 5"
    using four_fields_sum [of c] assms(2) m by linarith
  show "16 \<le> c div 4096 mod 64" if "c div 262144 = 0"
    using four_fields_sum [of c] that assms(1) m by linarith
  show "c div 4096 mod 64 < 16" if "c div 262144 = 4"
    using four_fields_sum [of c] that assms(2) m by linarith
qed

lemma enc1:
  assumes "c < 0x80"
  shows "utf8_decode_ignore (of_nat c # rest) = c # utf8_decode_ignore rest"
proof -
  have u: "unat (of_nat c :: byte) = c"
    using assms by (simp add: unat_byte_of_nat)
  then have "(of_nat c :: byte) < 0x80"
    using assms by (simp add: word_less_nat_alt)
  then show ?thesis
    by (simp add: dec_ascii u del: utf8_decode_ignore.simps)
qed

lemma enc2:
  assumes "\<not> c < 0x80" and "c < 0x800"
  shows "utf8_decode_ignore (of_nat (0xC0 + c div 64) # of_nat (0x80 + c mod 64) # rest)
    = c # utf8_decode_ignore rest"
proof -
  define l :: byte where "l = of_nat (0xC0 + c div 64)"
  define c2 :: byte where "c2 = of_nat (0x80 + c mod 64)"
  have d: "2 \<le> c div 64" "c div 64 < 32"
    using two_byte_lead_range [OF assms] by simp_all
  have ul: "unat l = 192 + c div 64"
    unfolding l_def using d by (subst unat_byte_of_nat) simp_all
  have u2: "unat c2 = 128 + c mod 64"
    unfolding c2_def by (subst unat_byte_of_nat) simp_all
  have lead: "\<not> l < 0xC2" "l < 0xE0"
    using d by (simp_all add: word_less_nat_alt ul)
  have cont: "is_cont c2"
    by (simp add: is_cont_def word_less_nat_alt word_le_nat_alt u2)
  have "cp2 l c2 = c"
    unfolding cp2_def ul u2 by simp
  then have "utf8_decode_ignore (l # c2 # rest) = c # utf8_decode_ignore rest"
    by (simp add: dec2 [OF lead] cont del: utf8_decode_ignore.simps)
  then show ?thesis
    unfolding l_def c2_def .
qed

lemma enc3:
  assumes "\<not> c < 0x800" and "c < 0x10000" and "\<not> (0xD800 \<le> c \<and> c < 0xE000)"
  shows "utf8_decode_ignore (of_nat (0xE0 + c div 4096) # of_nat (0x80 + c div 64 mod 64) #
      of_nat (0x80 + c mod 64) # rest) = c # utf8_decode_ignore rest"
proof -
  define l :: byte where "l = of_nat (0xE0 + c div 4096)"
  define c2 :: byte where "c2 = of_nat (0x80 + c div 64 mod 64)"
  define c3 :: byte where "c3 = of_nat (0x80 + c mod 64)"
  have d: "c div 4096 < 16"
    using assms by (rule three_byte_field_ranges)
  have ul: "unat l = 224 + c div 4096"
    unfolding l_def using d by (subst unat_byte_of_nat) simp_all
  have u2: "unat c2 = 128 + c div 64 mod 64"
    unfolding c2_def by (subst unat_byte_of_nat) simp_all
  have u3: "unat c3 = 128 + c mod 64"
    unfolding c3_def by (subst unat_byte_of_nat) simp_all
  have lead: "\<not> l < 0xE0" "l < 0xF0"
    using d by (simp_all add: word_less_nat_alt ul)
  have low: "c div 4096 = 0 \<Longrightarrow> 32 \<le> c div 64 mod 64"
    using assms by (rule three_byte_field_ranges)
  have sur: "c div 4096 = 13 \<Longrightarrow> c div 64 mod 64 < 32"
    using assms by (rule three_byte_field_ranges)
  have ok2: "\<not> bad3 l c2"
    using low sur
    by (auto simp add: bad3_def is_cont_def word_less_nat_alt word_le_nat_alt word_unat_eq_iff ul u2)
  have cont: "is_cont c3"
    by (simp add: is_cont_def word_less_nat_alt word_le_nat_alt u3)
  have "c div 4096 * 4096 + c div 64 mod 64 * 64 + c mod 64 = c"
    by (rule three_fields_sum)
  then have "cp3 l c2 c3 = c"
    unfolding cp3_def ul u2 u3 by simp
  then have "utf8_decode_ignore (l # c2 # c3 # rest) = c # utf8_decode_ignore rest"
    by (simp add: dec3 [OF lead ok2] cont del: utf8_decode_ignore.simps)
  then show ?thesis
    unfolding l_def c2_def c3_def .
qed

lemma enc4:
  assumes "\<not> c < 0x10000" and "c < 0x110000"
  shows "utf8_decode_ignore (of_nat (0xF0 + c div 262144) # of_nat (0x80 + c div 4096 mod 64) #
      of_nat (0x80 + c div 64 mod 64) # of_nat (0x80 + c mod 64) # rest) = c # utf8_decode_ignore rest"
proof -
  define l :: byte where "l = of_nat (0xF0 + c div 262144)"
  define c2 :: byte where "c2 = of_nat (0x80 + c div 4096 mod 64)"
  define c3 :: byte where "c3 = of_nat (0x80 + c div 64 mod 64)"
  define c4 :: byte where "c4 = of_nat (0x80 + c mod 64)"
  have d: "c div 262144 < 5"
    using assms by (rule four_byte_field_ranges)
  have ul: "unat l = 240 + c div 262144"
    unfolding l_def using d by (subst unat_byte_of_nat) simp_all
  have u2: "unat c2 = 128 + c div 4096 mod 64"
    unfolding c2_def by (subst unat_byte_of_nat) simp_all
  have u3: "unat c3 = 128 + c div 64 mod 64"
    unfolding c3_def by (subst unat_byte_of_nat) simp_all
  have u4: "unat c4 = 128 + c mod 64"
    unfolding c4_def by (subst unat_byte_of_nat) simp_all
  have lead: "\<not> l < 0xF0" "l < 0xF5"
    using d by (simp_all add: word_less_nat_alt ul)
  have low: "c div 262144 = 0 \<Longrightarrow> 16 \<le> c div 4096 mod 64"
    using assms by (rule four_byte_field_ranges)
  have top: "c div 262144 = 4 \<Longrightarrow> c div 4096 mod 64 < 16"
    using assms by (rule four_byte_field_ranges)
  have ok2: "\<not> bad4 l c2"
    using low top
    by (auto simp add: bad4_def is_cont_def word_less_nat_alt word_le_nat_alt word_unat_eq_iff ul u2)
  have cont3: "is_cont c3"
    by (simp add: is_cont_def word_less_nat_alt word_le_nat_alt u3)
  have cont4: "is_cont c4"
    by (simp add: is_cont_def word_less_nat_alt word_le_nat_alt u4)
  have "c div 262144 * 262144 + c div 4096 mod 64 * 4096 + c div 64 mod 64 * 64 + c mod 64 = c"
    by (rule four_fields_sum)
  then have "cp4 l c2 c3 c4 = c"
    unfolding cp4_def ul u2 u3 u4 by simp
  then have "utf8_decode_ignore (l # c2 # c3 # c4 # rest) = c # utf8_decode_ignore rest"
    by (simp add: dec4 [OF lead ok2 cont3] cont4 del: utf8_decode_ignore.simps)
  then show ?thesis
    unfolding l_def c2_def c3_def c4_def .
qed

lemma decode_encode_cp:
  "encode_cp c = Inr e \<Longrightarrow> utf8_decode_ignore (e @ rest) = c # utf8_decode_ignore rest"
  using enc1 [of c rest] enc2 [of c rest] enc3 [of c rest] enc4 [of c rest]
  by (auto simp add: encode_cp_def simp del: utf8_decode_ignore.simps split: if_splits)

lemma decode_encode: "utf8_encode s = Inr bs \<Longrightarrow> utf8_decode_ignore bs = s"
proof (induction s arbitrary: bs)
  case Nil
  then show ?case by simp
next
  case (Cons c cs)
  then obtain e r where e: "encode_cp c = Inr e" and r: "utf8_encode cs = Inr r" and bs: "bs = e @ r"
    by (auto split: sum.splits)
  show ?case
    using Cons.IH [OF r] decode_encode_cp [OF e, of r] by (simp add: bs del: utf8_decode_ignore.simps)
qed

section \<open>One call is one round trip\<close>

lemma put_run:
  assumes "pack_Q ts = Inr tb" and "utf8_encode key = Inr kb"
    and "srv (peer s) [bytes_lit ''PUT'', kb, tb, data] = (rep, p)"
  shows "put srv key ts data s =
    (put_reply rep, s\<lparr>sent := sent s @ [[bytes_lit ''PUT'', kb, tb, data]], peer := p\<rparr>)"
  using assms by (simp add: put_def send_multipart_def recv_multipart_def)

lemma get_run:
  assumes "utf8_encode key = Inr kb"
    and "srv (peer s) [bytes_lit ''GET'', kb] = (rep, p)"
  shows "get srv key s =
    (get_reply rep, s\<lparr>sent := sent s @ [[bytes_lit ''GET'', kb]], peer := p\<rparr>)"
  using assms by (simp add: get_def send_multipart_def recv_multipart_def)

section \<open>Decoding the reply\<close>

lemma put_reply_OK:
  "rep \<noteq> [] \<Longrightarrow> tag_of rep = str_lit ''OK'' \<Longrightarrow> put_reply rep = Inr (str_lit ''OK'')"
  by (simp add: put_reply_def tag_of_def)

lemma put_reply_STALE:
  "rep \<noteq> [] \<Longrightarrow> tag_of rep = str_lit ''STALE'' \<Longrightarrow> put_reply rep = Inr (str_lit ''STALE'')"
  by (simp add: put_reply_def tag_of_def)

lemma put_reply_ERR:
  "rep \<noteq> [] \<Longrightarrow> tag_of rep = str_lit ''ERR'' \<Longrightarrow>
   put_reply rep = Inl (RuntimeError (str_lit ''PUT ERR: '' @ server_message rep))"
  by (simp add: put_reply_def tag_of_def server_message_def str_lit_def)


lemma get_reply_MISS:
  "rep \<noteq> [] \<Longrightarrow> tag_of rep = str_lit ''MISS'' \<Longrightarrow> get_reply rep = Inr None"
  by (simp add: get_reply_def tag_of_def)

lemma get_reply_OK_malformed:
  "rep \<noteq> [] \<Longrightarrow> tag_of rep = str_lit ''OK'' \<Longrightarrow> length rep \<noteq> 3 \<Longrightarrow>
   get_reply rep = Inl (RuntimeError (str_lit ''malformed OK reply''))"
  by (simp add: get_reply_def tag_of_def str_lit_def)

lemma get_reply_OK:
  "tag_of rep = str_lit ''OK'' \<Longrightarrow> length rep = 3 \<Longrightarrow> length (rep ! 1) = 8 \<Longrightarrow>
   get_reply rep = Inr (Some (be_int (rep ! 1), rep ! 2))"
  by (auto simp add: get_reply_def tag_of_def unpack_Q_def str_lit_def)

lemma get_reply_ERR:
  "rep \<noteq> [] \<Longrightarrow> tag_of rep = str_lit ''ERR'' \<Longrightarrow>
   get_reply rep = Inl (RuntimeError (str_lit ''GET ERR: '' @ server_message rep))"
  by (simp add: get_reply_def tag_of_def server_message_def str_lit_def)

lemma get_reply_other:
  "rep \<noteq> [] \<Longrightarrow> tag_of rep \<noteq> str_lit ''MISS'' \<Longrightarrow> tag_of rep \<noteq> str_lit ''OK'' \<Longrightarrow>
   tag_of rep \<noteq> str_lit ''ERR'' \<Longrightarrow>
   get_reply rep = Inl (RuntimeError (str_lit ''Unexpected reply: '' @ repr_list rep))"
  by (simp add: get_reply_def tag_of_def)

lemma kind_remote_put: "failure_kind (RuntimeError (str_lit ''PUT ERR: '' @ m)) = Some (RemoteError m)"
  by (simp add: failure_kind_def str_lit_def)

lemma kind_remote_get: "failure_kind (RuntimeError (str_lit ''GET ERR: '' @ m)) = Some (RemoteError m)"
  by (simp add: failure_kind_def str_lit_def)

lemma kind_unexpected:
  "failure_kind (RuntimeError (str_lit ''Unexpected reply: '' @ m)) = Some ProtocolError"
  by (simp add: failure_kind_def str_lit_def)

lemma kind_malformed: "failure_kind (RuntimeError (str_lit ''malformed OK reply'')) = Some ProtocolError"
  by (simp add: failure_kind_def str_lit_def)


lemma tag_of_lits:
  "tag_of [bytes_lit ''OK''] = str_lit ''OK''"
  "tag_of [bytes_lit ''STALE''] = str_lit ''STALE''"
  "tag_of [bytes_lit ''MISS''] = str_lit ''MISS''"
  "tag_of (bytes_lit ''ERR'' # fs) = str_lit ''ERR''"
  "tag_of (bytes_lit ''OK'' # fs) = str_lit ''OK''"
  by (simp_all add: tag_of_def bytes_lit_def str_lit_def)



lemma utf8_decode_ignore_ascii:
  "list_all (\<lambda>b. b < 0x80) bs \<Longrightarrow> utf8_decode_ignore bs = map unat bs"
  by (induction bs) simp_all

lemma be_int_8:
  "be_int [b0, b1, b2, b3, b4, b5, b6, b7] =
     uint b0 * 2 ^ 56 + uint b1 * 2 ^ 48 + uint b2 * 2 ^ 40 + uint b3 * 2 ^ 32 +
     uint b4 * 2 ^ 24 + uint b5 * 2 ^ 16 + uint b6 * 2 ^ 8 + uint b7"
  by (simp add: be_int_def)

text \<open>
  C2. Whatever the server answers to a GET request: when the first frame of the reply
  decodes to \<open>MISS\<close>, get returns \<open>None\<close>; when it decodes to \<open>OK\<close> and the reply has
  three frames of which the second is 8 bytes long, get returns the pair of the second
  frame read as a big-endian unsigned integer (first byte most significant) and the third
  frame unchanged; when it decodes to \<open>ERR\<close>, get raises the exception whose kind is the
  remote error; for every other tag it raises the exception whose kind is the protocol
  error.
\<close>

theorem get_result_by_tag:
  assumes "utf8_encode key = Inr kb"
    and "srv (peer s) [bytes_lit ''GET'', kb] = (rep, p)" and "rep \<noteq> []"
  shows "(tag_of rep = str_lit ''MISS'' \<longrightarrow> fst (get srv key s) = Inr None) \<and>
         (tag_of rep = str_lit ''OK'' \<and> rep = [t, [b0, b1, b2, b3, b4, b5, b6, b7], payload] \<longrightarrow>
            fst (get srv key s) =
              Inr (Some (uint b0 * 2 ^ 56 + uint b1 * 2 ^ 48 + uint b2 * 2 ^ 40 + uint b3 * 2 ^ 32 +
                         uint b4 * 2 ^ 24 + uint b5 * 2 ^ 16 + uint b6 * 2 ^ 8 + uint b7,
                         payload))) \<and>
         (tag_of rep = str_lit ''ERR'' \<longrightarrow>
            (\<exists>e. fst (get srv key s) = Inl e \<and>
                 failure_kind e = Some (RemoteError (server_message rep)))) \<and>
         (tag_of rep \<noteq> str_lit ''MISS'' \<and> tag_of rep \<noteq> str_lit ''OK'' \<and>
          tag_of rep \<noteq> str_lit ''ERR'' \<longrightarrow>
            (\<exists>e. fst (get srv key s) = Inl e \<and> failure_kind e = Some ProtocolError))"
proof -
  have run: "fst (get srv key s) = get_reply rep"
    using get_run [where srv = srv and s = s, OF assms(1,2)] by simp
  have miss: "tag_of rep = str_lit ''MISS'' \<Longrightarrow> get_reply rep = Inr None"
    using assms(3) by (rule get_reply_MISS)
  have ok: "get_reply rep = Inr (Some (be_int [b0, b1, b2, b3, b4, b5, b6, b7], payload))"
    if "tag_of rep = str_lit ''OK''" and "rep = [t, [b0, b1, b2, b3, b4, b5, b6, b7], payload]"
    using get_reply_OK [of rep] that by simp
  have err: "tag_of rep = str_lit ''ERR'' \<Longrightarrow>
      get_reply rep = Inl (RuntimeError (str_lit ''GET ERR: '' @ server_message rep))"
    using assms(3) by (rule get_reply_ERR)
  have other: "tag_of rep \<noteq> str_lit ''MISS'' \<Longrightarrow> tag_of rep \<noteq> str_lit ''OK'' \<Longrightarrow>
      tag_of rep \<noteq> str_lit ''ERR'' \<Longrightarrow>
      get_reply rep = Inl (RuntimeError (str_lit ''Unexpected reply: '' @ repr_list rep))"
    using assms(3) by (rule get_reply_other)
  show ?thesis
    unfolding run
    using miss ok err other
    by (auto simp add: kind_remote_get kind_unexpected be_int_8 simp del: power_numeral)
qed

theorem get_result_by_tag_witness:
  "fst (get (\<lambda>st req. ([bytes_lit ''OK'', [0, 0, 0, 0, 0, 0, 3, 232], bytes_lit ''hello''], st))
        (str_lit ''k'') \<lparr>sent = [], peer = ()\<rparr>) = Inr (Some (1000, bytes_lit ''hello''))"
proof -
  have ne: "[bytes_lit ''OK'', [0, 0, 0, 0, 0, 0, 3, 232], bytes_lit ''hello''] \<noteq> []"
    by simp
  show ?thesis
    using get_result_by_tag [OF utf8_encode_ascii_k _ ne,
        of "\<lambda>st req. ([bytes_lit ''OK'', [0, 0, 0, 0, 0, 0, 3, 232], bytes_lit ''hello''], st)"
           "\<lparr>sent = [], peer = ()\<rparr>" "()" "bytes_lit ''OK''" 0 0 0 0 0 0 3 232 "bytes_lit ''hello''"]
    by (simp add: tag_of_lits)
qed

text \<open>
  C5. When the first frame of the reply to a GET decodes to \<open>OK\<close> and the reply does not
  have exactly three frames, get raises \<open>RuntimeError("malformed OK reply")\<close>, whose kind
  is the protocol error. The result is not \<open>None\<close> (a miss), not an exception of another
  class (\<open>struct.error\<close>, which a short reply would cause were it unpacked), and not an
  exception that reports a server \<open>ERR\<close>, whatever its message.
\<close>

theorem get_malformed_OK:
  assumes "utf8_encode key = Inr kb"
    and "srv (peer s) [bytes_lit ''GET'', kb] = (rep, p)" and "rep \<noteq> []"
    and "tag_of rep = str_lit ''OK''" and "length rep \<noteq> 3"
  shows "fst (get srv key s) = Inl (RuntimeError (str_lit ''malformed OK reply'')) \<and>
         failure_kind (RuntimeError (str_lit ''malformed OK reply'')) = Some ProtocolError \<and>
         get_outcome (fst (get srv key s)) = ProtocolFailure \<and>
         fst (get srv key s) \<noteq> Inr None \<and>
         fst (get srv key s) \<noteq> Inl StructError \<and>
         (\<forall>m. fst (get srv key s) \<noteq> Inl (RuntimeError (str_lit ''GET ERR: '' @ m))) \<and>
         (\<forall>m. failure_kind (RuntimeError (str_lit ''malformed OK reply'')) \<noteq> Some (RemoteError m))"
proof -
  have run: "fst (get srv key s) = get_reply rep"
    using get_run [where srv = srv and s = s, OF assms(1,2)] by simp
  have res: "get_reply rep = Inl (RuntimeError (str_lit ''malformed OK reply''))"
    using assms(3-5) by (rule get_reply_OK_malformed)
  have differs: "str_lit ''malformed OK reply'' \<noteq> str_lit ''GET ERR: '' @ m" for m
    by (simp add: str_lit_def)
  show ?thesis
    unfolding run res
    using differs by (simp add: kind_malformed get_outcome_def failure_outcome_def)
qed

theorem get_malformed_OK_witness:
  "fst (get (\<lambda>st req. ([bytes_lit ''OK'', [0, 0, 0, 0, 0, 0, 3, 232]], st))
        (str_lit ''k'') \<lparr>sent = [], peer = ()\<rparr>) = Inl (RuntimeError (str_lit ''malformed OK reply'')) \<and>
   get_outcome (fst (get (\<lambda>st req. ([bytes_lit ''OK'', [0, 0, 0, 0, 0, 0, 3, 232]], st))
        (str_lit ''k'') \<lparr>sent = [], peer = ()\<rparr>)) = ProtocolFailure"
proof -
  have ne: "[bytes_lit ''OK'', [0, 0, 0, 0, 0, 0, 3, 232 :: byte]] \<noteq> []"
    by simp
  have tag: "tag_of [bytes_lit ''OK'', [0, 0, 0, 0, 0, 0, 3, 232]] = str_lit ''OK''"
    by (rule tag_of_lits)
  have len: "length [bytes_lit ''OK'', [0, 0, 0, 0, 0, 0, 3, 232 :: byte]] \<noteq> 3"
    by simp
  have reply: "([bytes_lit ''OK'', [0, 0, 0, 0, 0, 0, 3, 232 :: byte]], peer \<lparr>sent = [], peer = ()\<rparr>)
      = ([bytes_lit ''OK'', [0, 0, 0, 0, 0, 0, 3, 232]], ())"
    by simp
  show ?thesis
    using get_malformed_OK [where srv = "\<lambda>st req. ([bytes_lit ''OK'', [0, 0, 0, 0, 0, 0, 3, 232]], st)"
        and s = "\<lparr>sent = [], peer = ()\<rparr>", OF utf8_encode_ascii_k reply ne tag len]
    by blast
qed

text \<open>
  C9. The frame count of a reply is checked for \<open>OK\<close> replies to GET only. When the first
  frame of the reply to a GET decodes to \<open>MISS\<close>, get returns \<open>None\<close> however many frames
  follow it; when the first frame of the reply to a PUT decodes to \<open>OK\<close> or \<open>STALE\<close>, put
  returns that tag however many frames follow it.
\<close>

theorem extra_frames_not_validated:
  assumes "utf8_encode key = Inr kb" and "pack_Q ts = Inr tb"
    and "gsrv (peer gs) [bytes_lit ''GET'', kb] = (f # extra, gp)"
    and "psrv (peer ps) [bytes_lit ''PUT'', kb, tb, data] = (f # extra, pp)"
  shows "(utf8_decode_ignore f = str_lit ''MISS'' \<longrightarrow> fst (get gsrv key gs) = Inr None) \<and>
         (utf8_decode_ignore f = str_lit ''OK'' \<longrightarrow>
            fst (put psrv key ts data ps) = Inr (str_lit ''OK'')) \<and>
         (utf8_decode_ignore f = str_lit ''STALE'' \<longrightarrow>
            fst (put psrv key ts data ps) = Inr (str_lit ''STALE''))"
proof -
  have grun: "fst (get gsrv key gs) = get_reply (f # extra)"
    using get_run [where srv = gsrv and s = gs, OF assms(1,3)] by simp
  have prun: "fst (put psrv key ts data ps) = put_reply (f # extra)"
    using put_run [where srv = psrv and s = ps, OF assms(2,1,4)] by simp
  have tag: "tag_of (f # extra) = utf8_decode_ignore f"
    by (simp add: tag_of_def)
  show ?thesis
    unfolding grun prun
    using get_reply_MISS [of "f # extra"] put_reply_OK [of "f # extra"]
      put_reply_STALE [of "f # extra"]
    by (simp add: tag)
qed

theorem extra_frames_not_validated_witness:
  "fst (get (\<lambda>st req. ([bytes_lit ''MISS'', bytes_lit ''x'', bytes_lit ''y''], st))
        (str_lit ''k'') \<lparr>sent = [], peer = ()\<rparr>) = Inr None"
proof -
  have greply: "([bytes_lit ''MISS'', bytes_lit ''x'', bytes_lit ''y''], peer \<lparr>sent = [], peer = ()\<rparr>)
      = ([bytes_lit ''MISS'', bytes_lit ''x'', bytes_lit ''y''], ())"
    by simp
  have tag: "utf8_decode_ignore (bytes_lit ''MISS'') = str_lit ''MISS''"
    by (simp add: bytes_lit_def str_lit_def)
  show ?thesis
    using extra_frames_not_validated
      [where gsrv = "\<lambda>st req. ([bytes_lit ''MISS'', bytes_lit ''x'', bytes_lit ''y''], st)"
         and gs = "\<lparr>sent = [], peer = ()\<rparr>"
         and psrv = "\<lambda>st req. ([bytes_lit ''MISS'', bytes_lit ''x'', bytes_lit ''y''], st)"
         and ps = "\<lparr>sent = [], peer = ()\<rparr>" and data = "[]",
       OF utf8_encode_ascii_k pack_Q_1000 greply greply]
    using tag by blast
qed





text \<open>
  C10. The timestamp is packed before anything is sent. For a timestamp below 0 or from
  \<open>2^64\<close> on, packing raises \<open>struct.error\<close> and so does put, leaving the session as it
  was: no frame has been sent and the peer has not been asked. For a timestamp in
  \<open>[0, 2^64)\<close> packing succeeds with 8 bytes, and unpacking them gives the timestamp
  back.
\<close>

theorem put_timestamp_range:
  "(\<not> (0 \<le> ts \<and> ts < 2 ^ 64) \<longrightarrow>
      pack_Q ts = Inl StructError \<and> put srv key ts data s = (Inl StructError, s)) \<and>
   (0 \<le> ts \<and> ts < 2 ^ 64 \<longrightarrow>
      (\<exists>tb. pack_Q ts = Inr tb \<and> length tb = 8 \<and> unpack_Q tb = Inr ts))"
proof (intro conjI impI)
  assume out: "\<not> (0 \<le> ts \<and> ts < 2 ^ 64)"
  then show "pack_Q ts = Inl StructError"
    by (simp add: pack_Q_def)
  then show "put srv key ts data s = (Inl StructError, s)"
    by (simp add: put_def)
next
  assume "0 \<le> ts \<and> ts < 2 ^ 64"
  then have "pack_Q ts = Inr (be_bytes 8 ts)" and "unpack_Q (be_bytes 8 ts) = Inr ts"
    by (simp_all add: unpack_pack_Q)
  then show "\<exists>tb. pack_Q ts = Inr tb \<and> length tb = 8 \<and> unpack_Q tb = Inr ts"
    by (simp add: length_be_bytes)
qed

theorem put_timestamp_range_witness:
  "put (\<lambda>st req. ([bytes_lit ''OK''], st)) (str_lit ''k'') (2 ^ 64) [] \<lparr>sent = [], peer = ()\<rparr>
     = (Inl StructError, \<lparr>sent = [], peer = ()\<rparr>) \<and>
   put (\<lambda>st req. ([bytes_lit ''OK''], st)) (str_lit ''k'') (- 1) [] \<lparr>sent = [], peer = ()\<rparr>
     = (Inl StructError, \<lparr>sent = [], peer = ()\<rparr>) \<and>
   (\<exists>tb. pack_Q (2 ^ 64 - 1) = Inr tb \<and> length tb = 8 \<and> unpack_Q tb = Inr (2 ^ 64 - 1))"
proof -
  have a: "\<not> (0 \<le> (2 ^ 64 :: int) \<and> (2 ^ 64 :: int) < 2 ^ 64)" by simp
  have b: "\<not> (0 \<le> (- 1 :: int) \<and> (- 1 :: int) < 2 ^ 64)" by simp
  have c: "0 \<le> (2 ^ 64 - 1 :: int) \<and> (2 ^ 64 - 1 :: int) < 2 ^ 64" by simp
  show ?thesis
    using put_timestamp_range [of "2 ^ 64" "\<lambda>st req. ([bytes_lit ''OK''], st)" "str_lit ''k''" "[]"
        "\<lparr>sent = [], peer = ()\<rparr>"]
      put_timestamp_range [of "- 1" "\<lambda>st req. ([bytes_lit ''OK''], st)" "str_lit ''k''" "[]"
        "\<lparr>sent = [], peer = ()\<rparr>"]
      put_timestamp_range [of "2 ^ 64 - 1" "\<lambda>st req. ([bytes_lit ''OK''], st)" "str_lit ''k''" "[]"
        "\<lparr>sent = [], peer = ()\<rparr>"]
      a b c
    by blast
qed

lemma decode_drops_never_valid:
  "list_all (\<lambda>c. c < 0x80 \<or> never_valid c) f \<Longrightarrow>
   utf8_decode_ignore f = map unat (filter (\<lambda>c. c < 0x80) f)"
proof (induction f)
  case Nil
  show ?case by simp
next
  case (Cons c f)
  then have rest: "utf8_decode_ignore f = map unat (filter (\<lambda>c. c < 0x80) f)"
    by simp
  show ?case
  proof (cases "c < 0x80")
    case True
    then show ?thesis
      by (simp add: dec_ascii rest del: utf8_decode_ignore.simps)
  next
    case False
    moreover have "c < 0xC2 \<or> \<not> c < 0xF5"
      using False Cons.prems by (auto simp add: never_valid_def word_less_nat_alt word_le_nat_alt)
    ultimately show ?thesis
      by (simp add: dec_drop1 rest del: utf8_decode_ignore.simps)
  qed
qed

lemma be_bytes_8:
  "\<exists>b0 b1 b2 b3 b4 b5 b6 b7. be_bytes 8 x = [b0, b1, b2, b3, b4, b5, b6, b7]"
  by (simp add: eval_nat_numeral)

text \<open>
  C3. For every key that str.encode accepts (no surrogate code point), every timestamp
  of the data model (an unsigned 64-bit integer) and every payload, put hands exactly one
  message to the socket, with the four frames: the three ASCII bytes \<open>PUT\<close>; the UTF-8
  encoding of the key, which decodes back to the key; 8 bytes whose big-endian value is
  the timestamp; the payload unchanged. get hands exactly one message to the socket, with
  the two frames \<open>GET\<close> and the UTF-8 encoding of the key.
\<close>

theorem request_frames:
  assumes "0 \<le> ts" and "ts < 2 ^ 64" and "utf8_encode key = Inr kb"
  shows "(\<exists>b0 b1 b2 b3 b4 b5 b6 b7.
            sent (snd (put srv key ts data s)) =
              sent s @ [[[0x50, 0x55, 0x54], kb, [b0, b1, b2, b3, b4, b5, b6, b7], data]] \<and>
            uint b0 * 2 ^ 56 + uint b1 * 2 ^ 48 + uint b2 * 2 ^ 40 + uint b3 * 2 ^ 32 +
            uint b4 * 2 ^ 24 + uint b5 * 2 ^ 16 + uint b6 * 2 ^ 8 + uint b7 = ts) \<and>
         sent (snd (get srv key s)) = sent s @ [[[0x47, 0x45, 0x54], kb]] \<and>
         utf8_decode_ignore kb = key"
proof -
  obtain b0 b1 b2 b3 b4 b5 b6 b7 where bs: "be_bytes 8 ts = [b0, b1, b2, b3, b4, b5, b6, b7]"
    using be_bytes_8 by blast
  have pack: "pack_Q ts = Inr [b0, b1, b2, b3, b4, b5, b6, b7]"
    and unpack: "unpack_Q [b0, b1, b2, b3, b4, b5, b6, b7] = Inr ts"
    using unpack_pack_Q [OF assms(1,2)] by (simp_all add: bs)
  have val: "uint b0 * 2 ^ 56 + uint b1 * 2 ^ 48 + uint b2 * 2 ^ 40 + uint b3 * 2 ^ 32 +
      uint b4 * 2 ^ 24 + uint b5 * 2 ^ 16 + uint b6 * 2 ^ 8 + uint b7 = ts"
    using unpack by (simp add: unpack_Q_def be_int_8 del: power_numeral)
  obtain rep p where srv: "srv (peer s) [bytes_lit ''PUT'', kb, [b0, b1, b2, b3, b4, b5, b6, b7], data] = (rep, p)"
    by (cases "srv (peer s) [bytes_lit ''PUT'', kb, [b0, b1, b2, b3, b4, b5, b6, b7], data]")
  have "sent (snd (put srv key ts data s)) =
      sent s @ [[bytes_lit ''PUT'', kb, [b0, b1, b2, b3, b4, b5, b6, b7], data]]"
    using put_run [where srv = srv and s = s, OF pack assms(3) srv] by simp
  then have p: "sent (snd (put srv key ts data s)) =
      sent s @ [[[0x50, 0x55, 0x54], kb, [b0, b1, b2, b3, b4, b5, b6, b7], data]]"
    by (simp add: bytes_lit_def)
  obtain grep gp where gsrv: "srv (peer s) [bytes_lit ''GET'', kb] = (grep, gp)"
    by (cases "srv (peer s) [bytes_lit ''GET'', kb]")
  have "sent (snd (get srv key s)) = sent s @ [[bytes_lit ''GET'', kb]]"
    using get_run [where srv = srv and s = s, OF assms(3) gsrv] by simp
  then have g: "sent (snd (get srv key s)) = sent s @ [[[0x47, 0x45, 0x54], kb]]"
    by (simp add: bytes_lit_def)
  from p val g decode_encode [OF assms(3)] show ?thesis
    by blast
qed

theorem request_frames_witness:
  "(\<exists>b0 b1 b2 b3 b4 b5 b6 b7.
      sent (snd (put (\<lambda>st req. ([bytes_lit ''OK''], st)) (str_lit ''k'') 1000 (bytes_lit ''hello'')
                  \<lparr>sent = [], peer = ()\<rparr>)) =
        [] @ [[[0x50, 0x55, 0x54], bytes_lit ''k'', [b0, b1, b2, b3, b4, b5, b6, b7], bytes_lit ''hello'']] \<and>
      uint b0 * 2 ^ 56 + uint b1 * 2 ^ 48 + uint b2 * 2 ^ 40 + uint b3 * 2 ^ 32 +
      uint b4 * 2 ^ 24 + uint b5 * 2 ^ 16 + uint b6 * 2 ^ 8 + uint b7 = (1000 :: int)) \<and>
   sent (snd (get (\<lambda>st req. ([bytes_lit ''OK''], st)) (str_lit ''k'') \<lparr>sent = [], peer = ()\<rparr>)) =
     [] @ [[[0x47, 0x45, 0x54], bytes_lit ''k'']]"
proof -
  have a: "(0 :: int) \<le> 1000" and b: "(1000 :: int) < 2 ^ 64"
    by simp_all
  have s: "sent \<lparr>sent = [] :: bytes list list, peer = ()\<rparr> = []"
    by simp
  show ?thesis
    using request_frames [OF a b utf8_encode_ascii_k,
        of "\<lambda>st req. ([bytes_lit ''OK''], st)" "bytes_lit ''hello''" "\<lparr>sent = [], peer = ()\<rparr>"]
    unfolding s by blast
qed

text \<open>
  C6 (as the code has it). When the first frame of the reply decodes to \<open>ERR\<close>, put
  raises \<open>RuntimeError("PUT ERR: " + msg)\<close> and get raises
  \<open>RuntimeError("GET ERR: " + msg)\<close>, the remote error with message msg. With the tag
  frame alone, msg is the empty string and nothing else fails. With a second frame, msg is
  that frame decoded as UTF-8 with invalid sequences dropped: the frame's own bytes when
  they are ASCII, and in general not the bytes themselves (see the counterexample).
\<close>

theorem err_reply_message:
  assumes "utf8_encode key = Inr kb" and "pack_Q ts = Inr tb"
    and "gsrv (peer gs) [bytes_lit ''GET'', kb] = (rep, gp)"
    and "psrv (peer ps) [bytes_lit ''PUT'', kb, tb, data] = (rep, pp)"
    and "rep \<noteq> []" and "tag_of rep = str_lit ''ERR''"
  shows "(\<exists>msg.
            fst (put psrv key ts data ps) = Inl (RuntimeError (str_lit ''PUT ERR: '' @ msg)) \<and>
            fst (get gsrv key gs) = Inl (RuntimeError (str_lit ''GET ERR: '' @ msg)) \<and>
            failure_kind (RuntimeError (str_lit ''PUT ERR: '' @ msg)) = Some (RemoteError msg) \<and>
            failure_kind (RuntimeError (str_lit ''GET ERR: '' @ msg)) = Some (RemoteError msg) \<and>
            (length rep = 1 \<longrightarrow> msg = []) \<and>
            (length rep > 1 \<longrightarrow> msg = utf8_decode_ignore (rep ! 1)) \<and>
            (length rep > 1 \<and> list_all (\<lambda>c. c < 0x80) (rep ! 1) \<longrightarrow> msg = map unat (rep ! 1)))"
proof -
  have grun: "fst (get gsrv key gs) = get_reply rep"
    using get_run [where srv = gsrv and s = gs, OF assms(1,3)] by simp
  have prun: "fst (put psrv key ts data ps) = put_reply rep"
    using put_run [where srv = psrv and s = ps, OF assms(2,1,4)] by simp
  have "put_reply rep = Inl (RuntimeError (str_lit ''PUT ERR: '' @ server_message rep))"
    using assms(5,6) by (rule put_reply_ERR)
  moreover have "get_reply rep = Inl (RuntimeError (str_lit ''GET ERR: '' @ server_message rep))"
    using assms(5,6) by (rule get_reply_ERR)
  moreover have "length rep = 1 \<longrightarrow> server_message rep = []"
    by (simp add: server_message_def)
  moreover have "length rep > 1 \<longrightarrow> server_message rep = utf8_decode_ignore (rep ! 1)"
    by (simp add: server_message_def)
  moreover have "length rep > 1 \<and> list_all (\<lambda>c. c < 0x80) (rep ! 1) \<longrightarrow>
      server_message rep = map unat (rep ! 1)"
    using utf8_decode_ignore_ascii [of "rep ! 1"] by (simp add: server_message_def)
  ultimately show ?thesis
    unfolding grun prun
    using kind_remote_put [of "server_message rep"] kind_remote_get [of "server_message rep"]
    by blast
qed

theorem err_reply_message_witness:
  "\<exists>msg. fst (put (\<lambda>st req. ([bytes_lit ''ERR''], st)) (str_lit ''k'') 1000 []
                 \<lparr>sent = [], peer = ()\<rparr>) = Inl (RuntimeError (str_lit ''PUT ERR: '' @ msg)) \<and>
         fst (get (\<lambda>st req. ([bytes_lit ''ERR''], st)) (str_lit ''k'') \<lparr>sent = [], peer = ()\<rparr>)
           = Inl (RuntimeError (str_lit ''GET ERR: '' @ msg)) \<and>
         msg = []"
proof -
  have reply: "([bytes_lit ''ERR''], peer \<lparr>sent = [], peer = ()\<rparr>) = ([bytes_lit ''ERR''], ())"
    by simp
  have ne: "[bytes_lit ''ERR''] \<noteq> []"
    by simp
  have tag: "tag_of [bytes_lit ''ERR''] = str_lit ''ERR''"
    by (rule tag_of_lits)
  have len: "length [bytes_lit ''ERR''] = 1"
    by simp
  show ?thesis
    using err_reply_message
      [where gsrv = "\<lambda>st req. ([bytes_lit ''ERR''], st)" and gs = "\<lparr>sent = [], peer = ()\<rparr>"
         and psrv = "\<lambda>st req. ([bytes_lit ''ERR''], st)" and ps = "\<lparr>sent = [], peer = ()\<rparr>"
         and data = "[]",
       OF utf8_encode_ascii_k pack_Q_1000 reply reply ne tag] len
    by blast
qed

text \<open>
  The claim C6 as written fails: the second frame \<open>b"\xff"\<close> is present, and the
  message carried is empty, as for a reply without a second frame.
\<close>

theorem err_message_bytes_counterexample:
  "fst (put (\<lambda>st req. ([bytes_lit ''ERR'', [0xFF]], st)) (str_lit ''k'') 1000 []
         \<lparr>sent = [], peer = ()\<rparr>) = Inl (RuntimeError (str_lit ''PUT ERR: '')) \<and>
   fst (put (\<lambda>st req. ([bytes_lit ''ERR''], st)) (str_lit ''k'') 1000 []
         \<lparr>sent = [], peer = ()\<rparr>) = Inl (RuntimeError (str_lit ''PUT ERR: '')) \<and>
   fst (get (\<lambda>st req. ([bytes_lit ''ERR'', [0xFF]], st)) (str_lit ''k'')
         \<lparr>sent = [], peer = ()\<rparr>) = Inl (RuntimeError (str_lit ''GET ERR: ''))"
proof -
  have m1: "server_message [bytes_lit ''ERR'', [0xFF]] = []"
    by (simp add: server_message_def)
  have m2: "server_message [bytes_lit ''ERR''] = []"
    by (simp add: server_message_def)
  have p1: "put_reply [bytes_lit ''ERR'', [0xFF]] = Inl (RuntimeError (str_lit ''PUT ERR: ''))"
    using put_reply_ERR [of "[bytes_lit ''ERR'', [0xFF]]"] by (simp add: tag_of_lits m1)
  have p2: "put_reply [bytes_lit ''ERR''] = Inl (RuntimeError (str_lit ''PUT ERR: ''))"
    using put_reply_ERR [of "[bytes_lit ''ERR'']"] by (simp add: tag_of_lits m2)
  have g1: "get_reply [bytes_lit ''ERR'', [0xFF]] = Inl (RuntimeError (str_lit ''GET ERR: ''))"
    using get_reply_ERR [of "[bytes_lit ''ERR'', [0xFF]]"] by (simp add: tag_of_lits m1)
  have r1: "([bytes_lit ''ERR'', [0xFF :: byte]], peer \<lparr>sent = [], peer = ()\<rparr>)
      = ([bytes_lit ''ERR'', [0xFF]], ())"
    by simp
  have r2: "([bytes_lit ''ERR''], peer \<lparr>sent = [], peer = ()\<rparr>) = ([bytes_lit ''ERR''], ())"
    by simp
  show ?thesis
    using put_run [where srv = "\<lambda>st req. ([bytes_lit ''ERR'', [0xFF]], st)"
          and s = "\<lparr>sent = [], peer = ()\<rparr>" and data = "[]", OF pack_Q_1000 utf8_encode_ascii_k r1]
      put_run [where srv = "\<lambda>st req. ([bytes_lit ''ERR''], st)"
          and s = "\<lparr>sent = [], peer = ()\<rparr>" and data = "[]", OF pack_Q_1000 utf8_encode_ascii_k r2]
      get_run [where srv = "\<lambda>st req. ([bytes_lit ''ERR'', [0xFF]], st)"
          and s = "\<lparr>sent = [], peer = ()\<rparr>", OF utf8_encode_ascii_k r1]
    by (simp add: p1 p2 g1)
qed

text \<open>
  C7 (as the code has it). The status tag is the first frame decoded with
  \<open>errors="ignore"\<close>: invalid byte sequences are dropped and nothing is put in their
  place. Decoding is total and yields Unicode scalar values only; a frame that is the
  UTF-8 encoding of a text decodes to that text; in a frame of ASCII bytes and bytes that
  no UTF-8 sequence starts with, exactly the ASCII bytes remain. So a tag frame whose
  ASCII bytes spell \<open>OK\<close>, \<open>STALE\<close> or \<open>MISS\<close> decodes to that tag whatever such bytes
  are mixed in, and put and get act on it.
\<close>

theorem tag_decoding_ignores_invalid_bytes:
  "list_all scalar (utf8_decode_ignore f) \<and>
   (utf8_encode u = Inr f \<longrightarrow> utf8_decode_ignore f = u) \<and>
   (list_all (\<lambda>c. c < 0x80 \<or> never_valid c) f \<longrightarrow>
      utf8_decode_ignore f = map unat (filter (\<lambda>c. c < 0x80) f) \<and>
      (filter (\<lambda>c. c < 0x80) f = bytes_lit ''OK'' \<longrightarrow>
         put_reply (f # extra) = Inr (str_lit ''OK'')) \<and>
      (filter (\<lambda>c. c < 0x80) f = bytes_lit ''STALE'' \<longrightarrow>
         put_reply (f # extra) = Inr (str_lit ''STALE'')) \<and>
      (filter (\<lambda>c. c < 0x80) f = bytes_lit ''MISS'' \<longrightarrow>
         get_reply (f # extra) = Inr None))"
proof -
  have tag: "tag_of (f # extra) = map unat (filter (\<lambda>c. c < 0x80) f)"
    if "list_all (\<lambda>c. c < 0x80 \<or> never_valid c) f"
    using decode_drops_never_valid [OF that] by (simp add: tag_of_def)
  have lits: "map unat (bytes_lit ''OK'') = str_lit ''OK''"
    "map unat (bytes_lit ''STALE'') = str_lit ''STALE''"
    "map unat (bytes_lit ''MISS'') = str_lit ''MISS''"
    by (simp_all add: bytes_lit_def str_lit_def)
  show ?thesis
    using decode_scalar [of f] decode_encode [of u f] decode_drops_never_valid [of f]
      put_reply_OK [of "f # extra"] put_reply_STALE [of "f # extra"] get_reply_MISS [of "f # extra"]
      tag lits
    by auto
qed

theorem tag_decoding_ignores_invalid_bytes_witness:
  "utf8_decode_ignore [0x4F, 0xFF, 0x4B] = map unat (filter (\<lambda>c. c < 0x80) [0x4F, 0xFF, 0x4B :: byte]) \<and>
   put_reply ([0x4F, 0xFF, 0x4B] # []) = Inr (str_lit ''OK'')"
proof -
  have a: "list_all (\<lambda>c. c < 0x80 \<or> never_valid c) [0x4F, 0xFF, 0x4B :: byte]"
    by (simp add: never_valid_def)
  have b: "filter (\<lambda>c. c < 0x80) [0x4F, 0xFF, 0x4B :: byte] = bytes_lit ''OK''"
    by (simp add: bytes_lit_def)
  show ?thesis
    using tag_decoding_ignores_invalid_bytes [of "[0x4F, 0xFF, 0x4B]" "[]" "[]"] a b
    by blast
qed

text \<open>
  The claim C7 as written fails: the tag frame \<open>b"O\xffK"\<close> holds the byte 0xFF, which
  no UTF-8 text contains (its decoding encodes to other bytes); it decodes to \<open>OK\<close>
  without a replacement character, and put returns \<open>"OK"\<close>.
\<close>

theorem invalid_tag_decodes_to_OK_counterexample:
  "utf8_decode_ignore [0x4F, 0xFF, 0x4B] = str_lit ''OK'' \<and>
   0xFFFD \<notin> set (utf8_decode_ignore [0x4F, 0xFF, 0x4B]) \<and>
   utf8_encode (utf8_decode_ignore [0x4F, 0xFF, 0x4B]) = Inr [0x4F, 0x4B] \<and>
   fst (put (\<lambda>st req. ([[0x4F, 0xFF, 0x4B]], st)) (str_lit ''k'') 1000 []
         \<lparr>sent = [], peer = ()\<rparr>) = Inr (str_lit ''OK'')"
proof -
  have c1: "utf8_decode_ignore [0x4F, 0xFF, 0x4B] = str_lit ''OK''"
    by (simp add: str_lit_def)
  have c2: "0xFFFD \<notin> set (utf8_decode_ignore [0x4F, 0xFF, 0x4B])"
    by simp
  have c3: "utf8_encode (utf8_decode_ignore [0x4F, 0xFF, 0x4B]) = Inr [0x4F, 0x4B]"
    by (simp add: encode_cp_def)
  have r: "([[0x4F, 0xFF, 0x4B :: byte]], peer \<lparr>sent = [], peer = ()\<rparr>) = ([[0x4F, 0xFF, 0x4B]], ())"
    by simp
  have p: "put_reply [[0x4F, 0xFF, 0x4B]] = Inr (str_lit ''OK'')"
    using put_reply_OK [of "[[0x4F, 0xFF, 0x4B]]"] by (simp add: tag_of_def str_lit_def)
  have c4: "fst (put (\<lambda>st req. ([[0x4F, 0xFF, 0x4B]], st)) (str_lit ''k'') 1000 []
         \<lparr>sent = [], peer = ()\<rparr>) = Inr (str_lit ''OK'')"
    using put_run [where srv = "\<lambda>st req. ([[0x4F, 0xFF, 0x4B]], st)"
          and s = "\<lparr>sent = [], peer = ()\<rparr>" and data = "[]", OF pack_Q_1000 utf8_encode_ascii_k r]
    by (simp add: p)
  show ?thesis
    by (intro conjI c1 c2 c3 c4)
qed

section \<open>The client against the store\<close>

lemma kvz_store_put_fresh:
  assumes "length tsb = 8" and "case st k of None \<Rightarrow> True | Some (t0, p0) \<Rightarrow> t0 < be_int tsb"
  shows "kvz_store st [bytes_lit ''PUT'', k, tsb, payload] =
    ([bytes_lit ''OK''], st(k \<mapsto> (be_int tsb, payload)))"
  using assms by (auto split: option.splits)

lemma kvz_store_put_stale:
  assumes "length tsb = 8" and "st k = Some (t0, p0)" and "\<not> t0 < be_int tsb"
  shows "kvz_store st [bytes_lit ''PUT'', k, tsb, payload] = ([bytes_lit ''STALE''], st)"
  using assms by simp

lemma kvz_store_get_found:
  assumes "st k = Some (t0, p0)"
  shows "kvz_store st [bytes_lit ''GET'', k] = ([bytes_lit ''OK'', be_bytes 8 t0, p0], st)"
  using assms by simp

lemma put_reply_lit_OK: "put_reply [bytes_lit ''OK''] = Inr (str_lit ''OK'')"
  using put_reply_OK [of "[bytes_lit ''OK'']"] by (simp add: tag_of_lits)

lemma put_reply_lit_STALE: "put_reply [bytes_lit ''STALE''] = Inr (str_lit ''STALE'')"
  using put_reply_STALE [of "[bytes_lit ''STALE'']"] by (simp add: tag_of_lits)

lemma get_reply_found:
  assumes "0 \<le> t0" and "t0 < 2 ^ 64"
  shows "get_reply [bytes_lit ''OK'', be_bytes 8 t0, p0] = Inr (Some (t0, p0))"
proof -
  have "be_int (be_bytes 8 t0) = t0"
    using unpack_pack_Q(2) [OF assms] by (simp add: unpack_Q_def length_be_bytes)
  then show ?thesis
    using get_reply_OK [of "[bytes_lit ''OK'', be_bytes 8 t0, p0]"]
    by (simp add: tag_of_lits length_be_bytes)
qed

lemma put_then_get_accepted:
  assumes enc: "utf8_encode key = Inr kb" and lo: "0 \<le> T" and hi: "T < 2 ^ 64"
    and fresh: "case peer s kb of None \<Rightarrow> True | Some (t0, p0) \<Rightarrow> t0 < T"
  shows "fst (put kvz_store key T P s) = Inr (str_lit ''OK'')"
    and "fst (get kvz_store key (snd (put kvz_store key T P s))) = Inr (Some (T, P))"
proof -
  have pack: "pack_Q T = Inr (be_bytes 8 T)" and val: "be_int (be_bytes 8 T) = T"
    using unpack_pack_Q [OF lo hi] by (simp_all add: unpack_Q_def length_be_bytes)
  have srv: "kvz_store (peer s) [bytes_lit ''PUT'', kb, be_bytes 8 T, P] =
      ([bytes_lit ''OK''], (peer s)(kb \<mapsto> (T, P)))"
    using kvz_store_put_fresh [of "be_bytes 8 T" "peer s" kb P] fresh
    by (cases "peer s kb") (auto simp add: length_be_bytes val)
  have run: "put kvz_store key T P s =
      (put_reply [bytes_lit ''OK''],
       s\<lparr>sent := sent s @ [[bytes_lit ''PUT'', kb, be_bytes 8 T, P]], peer := (peer s)(kb \<mapsto> (T, P))\<rparr>)"
    using pack enc srv by (rule put_run)
  show "fst (put kvz_store key T P s) = Inr (str_lit ''OK'')"
    by (simp add: run put_reply_lit_OK)
  define s1 where
    "s1 = s\<lparr>sent := sent s @ [[bytes_lit ''PUT'', kb, be_bytes 8 T, P]], peer := (peer s)(kb \<mapsto> (T, P))\<rparr>"
  have s1: "snd (put kvz_store key T P s) = s1"
    by (simp add: run s1_def)
  have "peer s1 kb = Some (T, P)"
    by (simp add: s1_def)
  then have gsrv: "kvz_store (peer s1) [bytes_lit ''GET'', kb] =
      ([bytes_lit ''OK'', be_bytes 8 T, P], peer s1)"
    by (rule kvz_store_get_found)
  have "fst (get kvz_store key s1) = get_reply [bytes_lit ''OK'', be_bytes 8 T, P]"
    using get_run [where srv = kvz_store and s = s1, OF enc gsrv] by simp
  then show "fst (get kvz_store key (snd (put kvz_store key T P s))) = Inr (Some (T, P))"
    by (simp add: s1 get_reply_found [OF lo hi])
qed

text \<open>
  C4 (as the store contract has it). Against the store of section 6, for every key that
  str.encode accepts, every timestamp T in \<open>[0, 2^64)\<close> and every payload P: when the
  store holds no record for the key, or one whose timestamp is strictly less than T,
  put(K, T, P) returns \<open>"OK"\<close> and the get(K) that follows returns the pair (T, P), the
  payload byte for byte.
\<close>

theorem put_get_round_trip:
  assumes "utf8_encode key = Inr kb" and "0 \<le> T" and "T < 2 ^ 64"
    and "case peer s kb of None \<Rightarrow> True | Some (t0, p0) \<Rightarrow> t0 < T"
  shows "fst (put kvz_store key T P s) = Inr (str_lit ''OK'') \<and>
         fst (get kvz_store key (snd (put kvz_store key T P s))) = Inr (Some (T, P))"
  using put_then_get_accepted [OF assms] by simp

theorem put_get_round_trip_witness:
  "fst (put kvz_store (str_lit ''k'') (2 ^ 64 - 1) [0, 0x7F, 0x80, 0xFF] \<lparr>sent = [], peer = Map.empty\<rparr>)
     = Inr (str_lit ''OK'') \<and>
   fst (get kvz_store (str_lit ''k'')
         (snd (put kvz_store (str_lit ''k'') (2 ^ 64 - 1) [0, 0x7F, 0x80, 0xFF]
                 \<lparr>sent = [], peer = Map.empty\<rparr>)))
     = Inr (Some (2 ^ 64 - 1, [0, 0x7F, 0x80, 0xFF]))"
proof -
  have lo: "(0 :: int) \<le> 2 ^ 64 - 1" and hi: "(2 ^ 64 - 1 :: int) < 2 ^ 64"
    by simp_all
  have fresh: "case peer \<lparr>sent = [], peer = (Map.empty :: store)\<rparr> (bytes_lit ''k'') of
      None \<Rightarrow> True | Some (t0, p0) \<Rightarrow> t0 < 2 ^ 64 - 1"
    by simp
  show ?thesis
    using put_get_round_trip [OF utf8_encode_ascii_k lo hi fresh] .
qed

text \<open>
  The claim C4 as written fails: on an empty store, after put("k", 5, b"new") the call
  put("k", 3, b"old") is answered \<open>STALE\<close>, and the get that follows returns
  (5, b"new"), not (3, b"old").
\<close>

theorem stale_put_then_get_counterexample:
  "fst (put kvz_store (str_lit ''k'') 3 (bytes_lit ''old'')
         (snd (put kvz_store (str_lit ''k'') 5 (bytes_lit ''new'') \<lparr>sent = [], peer = Map.empty\<rparr>)))
     = Inr (str_lit ''STALE'') \<and>
   fst (get kvz_store (str_lit ''k'')
         (snd (put kvz_store (str_lit ''k'') 3 (bytes_lit ''old'')
            (snd (put kvz_store (str_lit ''k'') 5 (bytes_lit ''new'') \<lparr>sent = [], peer = Map.empty\<rparr>)))))
     = Inr (Some (5, bytes_lit ''new''))"
proof -
  define s0 :: "store session" where "s0 = \<lparr>sent = [], peer = Map.empty\<rparr>"
  define s1 where "s1 = snd (put kvz_store (str_lit ''k'') 5 (bytes_lit ''new'') s0)"
  define s2 where "s2 = snd (put kvz_store (str_lit ''k'') 3 (bytes_lit ''old'') s1)"
  have p5: "pack_Q 5 = Inr (be_bytes 8 5)" and v5: "be_int (be_bytes 8 5) = 5"
    and p3: "pack_Q 3 = Inr (be_bytes 8 3)" and v3: "be_int (be_bytes 8 3) = 3"
    using unpack_pack_Q [of 5] unpack_pack_Q [of 3] by (simp_all add: unpack_Q_def length_be_bytes)
  have srv1: "kvz_store (peer s0) [bytes_lit ''PUT'', bytes_lit ''k'', be_bytes 8 5, bytes_lit ''new''] =
      ([bytes_lit ''OK''], (peer s0)(bytes_lit ''k'' \<mapsto> (5, bytes_lit ''new'')))"
    using kvz_store_put_fresh [of "be_bytes 8 5" "peer s0" "bytes_lit ''k''" "bytes_lit ''new''"]
    by (simp add: length_be_bytes v5 s0_def)
  have peer1: "peer s1 (bytes_lit ''k'') = Some (5, bytes_lit ''new'')"
    using put_run [where srv = kvz_store and s = s0, OF p5 utf8_encode_ascii_k srv1]
    by (simp add: s1_def)
  have srv2: "kvz_store (peer s1) [bytes_lit ''PUT'', bytes_lit ''k'', be_bytes 8 3, bytes_lit ''old''] =
      ([bytes_lit ''STALE''], peer s1)"
    using kvz_store_put_stale [where tsb = "be_bytes 8 3" and st = "peer s1" and k = "bytes_lit ''k''"
        and payload = "bytes_lit ''old''", OF length_be_bytes peer1]
    by (simp add: v3)
  have run2: "put kvz_store (str_lit ''k'') 3 (bytes_lit ''old'') s1 =
      (put_reply [bytes_lit ''STALE''],
       s1\<lparr>sent := sent s1 @ [[bytes_lit ''PUT'', bytes_lit ''k'', be_bytes 8 3, bytes_lit ''old'']],
           peer := peer s1\<rparr>)"
    using p3 utf8_encode_ascii_k srv2 by (rule put_run)
  have stale: "fst (put kvz_store (str_lit ''k'') 3 (bytes_lit ''old'') s1) = Inr (str_lit ''STALE'')"
    by (simp add: run2 put_reply_lit_STALE)
  have peer2: "peer s2 (bytes_lit ''k'') = Some (5, bytes_lit ''new'')"
    by (simp add: s2_def run2 peer1)
  have gsrv: "kvz_store (peer s2) [bytes_lit ''GET'', bytes_lit ''k''] =
      ([bytes_lit ''OK'', be_bytes 8 5, bytes_lit ''new''], peer s2)"
    using peer2 by (rule kvz_store_get_found)
  have "fst (get kvz_store (str_lit ''k'') s2) = get_reply [bytes_lit ''OK'', be_bytes 8 5, bytes_lit ''new'']"
    using get_run [where srv = kvz_store and s = s2, OF utf8_encode_ascii_k gsrv] by simp
  then have found: "fst (get kvz_store (str_lit ''k'') s2) = Inr (Some (5, bytes_lit ''new''))"
    using get_reply_found [of 5 "bytes_lit ''new''"] by simp
  show ?thesis
    using stale found unfolding s2_def s1_def s0_def by (rule conjI)
qed

end
